theory Spec2Isabelle
  imports Main "HOL-Library.Char_ord"
begin

section \<open>Access-code redemption and profile bootstrap of Eliv8-Sports\<close>

text \<open>
  The development embeds the access-code workflow of the application: the athlete page
  (\<^verbatim>\<open>src/pages/athlete/AccessCode.tsx\<close>: \<^verbatim>\<open>validateCode\<close>, \<^verbatim>\<open>handleJoin\<close>), the coach page
  (\<^verbatim>\<open>src/pages/coach/AccessCode.tsx\<close>: \<^verbatim>\<open>handleSubmit\<close>), the sign-up page
  (\<^verbatim>\<open>src/pages/auth/SignUp.tsx\<close>: \<^verbatim>\<open>handleSignUp\<close>) and the SQL migration (tables, the
  triggers \<^verbatim>\<open>on_access_code_used\<close> and \<^verbatim>\<open>on_auth_user_created\<close> with their functions
  \<^verbatim>\<open>handle_athlete_access_code\<close> and \<^verbatim>\<open>handle_new_user\<close>).

  A handler of a page is a function of the component state and the database that returns
  both as the handler leaves them; the time of \<^verbatim>\<open>new Date()\<close> and the signed-in user are
  arguments. A handler is one step: what other sessions do happens between handlers.

  The database is a record of tables, each table a list of rows in insertion order.
  A statement of the data service is a function from the database to either an error or
  the new database; a statement that raises leaves the database as it was (the statement
  and the row triggers it fires are one transaction).

  What is modelled of the schema: \<^verbatim>\<open>NOT NULL\<close>, \<^verbatim>\<open>UNIQUE\<close>, primary keys and the
  \<^verbatim>\<open>CHECK\<close> constraints of the columns below. What is not: columns filled by defaults that
  no statement here reads (\<^verbatim>\<open>id\<close> of generated rows, \<^verbatim>\<open>created_at\<close>, \<^verbatim>\<open>updated_at\<close>),
  foreign keys (every reference is taken to resolve, the referenced tables \<^verbatim>\<open>auth.users\<close>,
  \<^verbatim>\<open>sports\<close> and \<^verbatim>\<open>organizations\<close> are not part of the state) and row level security
  (the session is taken to be allowed to read and write the rows it touches).
  Strings are byte strings; white space is ASCII white space.
\<close>

subsection \<open>Values\<close>

type_synonym uuid = string
type_synonym timestamptz = nat

text \<open>\<^verbatim>\<open>role text NOT NULL CHECK (role IN ('admin', 'coach', 'athlete'))\<close> and
  \<^verbatim>\<open>gender text CHECK (gender IN ('male', 'female'))\<close>.\<close>

datatype role = Admin | Coach | Athlete

datatype gender = Male | Female





subsection \<open>Tables\<close>

text \<open>
  \<^verbatim>\<open>access_codes\<close>. The column \<^verbatim>\<open>coach_id\<close> is read by the athlete page but is declared by
  no migration under the sources; it is taken as a nullable column of the table.
\<close>

record access_code =
  ac_code :: string
  ac_organization_id :: "uuid option"
  ac_role :: role
  ac_sport_id :: "uuid option"
  ac_gender :: "gender option"
  ac_created_by :: "uuid option"
  ac_coach_id :: "uuid option"
  ac_used_at :: "timestamptz option"
  ac_used_by :: "uuid option"

text \<open>\<^verbatim>\<open>profiles\<close>: \<^verbatim>\<open>id uuid PRIMARY KEY\<close>, \<^verbatim>\<open>role\<close> nullable.\<close>

record profile =
  pr_id :: uuid
  pr_role :: "role option"
  pr_organization_id :: "uuid option"
  pr_full_name :: "string option"
  pr_email :: "string option"

text \<open>\<^verbatim>\<open>user_sports\<close>: the three key columns are nullable; \<^verbatim>\<open>gender\<close> is added by the
  second migration.\<close>

record user_sport =
  us_user_id :: "uuid option"
  us_sport_id :: "uuid option"
  us_organization_id :: "uuid option"
  us_gender :: "gender option"

text \<open>\<^verbatim>\<open>coach_athletes\<close>: the four key columns are \<^verbatim>\<open>NOT NULL\<close>. The athlete page also
  writes a \<^verbatim>\<open>gender\<close>, taken as a nullable column.\<close>

record coach_athlete =
  ca_coach_id :: uuid
  ca_athlete_id :: uuid
  ca_sport_id :: uuid
  ca_organization_id :: uuid
  ca_gender :: "gender option"

record database =
  access_codes :: "access_code list"
  profiles :: "profile list"
  user_sports :: "user_sport list"
  coach_athletes :: "coach_athlete list"

datatype store_error =
  UniqueViolation | NotNullViolation | CheckViolation | NoSingleRow | StatementRaised

subsection \<open>Statements of the data service\<close>


text \<open>The values of an insert into \<^verbatim>\<open>coach_athletes\<close>; a missing key column violates
  \<^verbatim>\<open>NOT NULL\<close>.\<close>

definition coach_athletes_values ::
  "uuid option \<Rightarrow> uuid option \<Rightarrow> uuid option \<Rightarrow> uuid option \<Rightarrow> gender option \<Rightarrow>
   coach_athlete option" where
  "coach_athletes_values coach athlete sport org g =
     (case (coach, athlete, sport, org) of
        (Some c, Some a, Some s, Some g') \<Rightarrow>
          Some \<lparr>ca_coach_id = c, ca_athlete_id = a, ca_sport_id = s,
                ca_organization_id = g', ca_gender = g\<rparr>
      | _ \<Rightarrow> None)"

text \<open>\<^verbatim>\<open>UNIQUE(coach_id, athlete_id, sport_id, organization_id)\<close>.\<close>

definition same_link :: "coach_athlete \<Rightarrow> coach_athlete \<Rightarrow> bool" where
  "same_link x y =
     (ca_coach_id x = ca_coach_id y \<and> ca_athlete_id x = ca_athlete_id y \<and>
      ca_sport_id x = ca_sport_id y \<and> ca_organization_id x = ca_organization_id y)"

text \<open>The plain insert of the athlete page: a duplicate key is an error.\<close>

definition insert_coach_athletes ::
  "uuid option \<Rightarrow> uuid option \<Rightarrow> uuid option \<Rightarrow> uuid option \<Rightarrow> gender option \<Rightarrow>
   database \<Rightarrow> store_error + database" where
  "insert_coach_athletes coach athlete sport org g db =
     (case coach_athletes_values coach athlete sport org g of
        None \<Rightarrow> Inl NotNullViolation
      | Some row \<Rightarrow>
          if list_ex (same_link row) (coach_athletes db) then Inl UniqueViolation
          else Inr (db\<lparr>coach_athletes := coach_athletes db @ [row]\<rparr>))"

text \<open>The trigger's insert:
  \<^verbatim>\<open>ON CONFLICT (coach_id, athlete_id, sport_id, organization_id) DO NOTHING\<close>.\<close>

definition insert_coach_athletes_do_nothing ::
  "uuid option \<Rightarrow> uuid option \<Rightarrow> uuid option \<Rightarrow> uuid option \<Rightarrow>
   database \<Rightarrow> store_error + database" where
  "insert_coach_athletes_do_nothing coach athlete sport org db =
     (case coach_athletes_values coach athlete sport org None of
        None \<Rightarrow> Inl NotNullViolation
      | Some row \<Rightarrow>
          if list_ex (same_link row) (coach_athletes db) then Inr db
          else Inr (db\<lparr>coach_athletes := coach_athletes db @ [row]\<rparr>))"



subsection \<open>The trigger on access codes\<close>

text \<open>
  \<^verbatim>\<open>CREATE TRIGGER on_access_code_used AFTER UPDATE ON access_codes FOR EACH ROW
  WHEN (OLD.used_by IS NULL AND NEW.used_by IS NOT NULL)\<close>.
\<close>

definition on_access_code_used :: "access_code \<Rightarrow> access_code \<Rightarrow> bool" where
  "on_access_code_used OLD NEW = (ac_used_by OLD = None \<and> ac_used_by NEW \<noteq> None)"

definition handle_athlete_access_code :: "access_code \<Rightarrow> database \<Rightarrow> store_error + database" where
  "handle_athlete_access_code NEW db =
     (if ac_role NEW = Athlete \<and> ac_used_by NEW \<noteq> None
      then insert_coach_athletes_do_nothing
             (ac_created_by NEW) (ac_used_by NEW) (ac_sport_id NEW) (ac_organization_id NEW) db
      else Inr db)"

text \<open>The row triggers of one statement run after its rows are updated, one row after the
  other; the first that raises aborts the statement.\<close>

fun fire_triggers :: "(access_code \<times> access_code) list \<Rightarrow> database \<Rightarrow> store_error + database" where
  "fire_triggers [] db = Inr db"
| "fire_triggers ((OLD, NEW) # rest) db =
     (if on_access_code_used OLD NEW
      then (case handle_athlete_access_code NEW db of
              Inl e \<Rightarrow> Inl e
            | Inr db' \<Rightarrow> fire_triggers rest db')
      else fire_triggers rest db)"

text \<open>
  The statement all three redemption paths send:
  \<^verbatim>\<open>.from('access_codes').update({ used_at: new Date().toISOString(), used_by: id })
  .eq('code', c)\<close>. Its only filter is the code text.
\<close>

definition set_used :: "timestamptz \<Rightarrow> uuid \<Rightarrow> access_code \<Rightarrow> access_code" where
  "set_used t u r = r\<lparr>ac_used_at := Some t, ac_used_by := Some u\<rparr>"

text \<open>The rows the statement updates, each as the pair \<^verbatim>\<open>(OLD, NEW)\<close> its triggers see.\<close>

definition updated_rows :: "string \<Rightarrow> timestamptz \<Rightarrow> uuid \<Rightarrow> database \<Rightarrow> (access_code \<times> access_code) list" where
  "updated_rows c t u db =
     map (\<lambda>r. (r, set_used t u r)) (filter (\<lambda>r. ac_code r = c) (access_codes db))"

definition update_access_codes :: "string \<Rightarrow> timestamptz \<Rightarrow> uuid \<Rightarrow> database \<Rightarrow> store_error + database" where
  "update_access_codes c t u db =
     fire_triggers (updated_rows c t u db)
       (db\<lparr>access_codes := map (\<lambda>r. if ac_code r = c then set_used t u r else r) (access_codes db)\<rparr>)"

text \<open>The rows for which the statement runs the trigger function: those of its rows for
  which the \<^verbatim>\<open>WHEN\<close> clause holds.\<close>

definition trigger_runs :: "string \<Rightarrow> timestamptz \<Rightarrow> uuid \<Rightarrow> database \<Rightarrow> access_code list" where
  "trigger_runs c t u db =
     map snd (filter (\<lambda>(OLD, NEW). on_access_code_used OLD NEW) (updated_rows c t u db))"

text \<open>A series of such statements, each on the state the one before left (a statement that
  raises leaves the state as it was): how many times the trigger function ran, in the
  statements that went through, for a row with the code text \<open>c\<close>.\<close>

fun runs_on :: "string \<Rightarrow> (string \<times> timestamptz \<times> uuid) list \<Rightarrow> database \<Rightarrow> nat" where
  "runs_on c [] db = 0"
| "runs_on c ((c', t, u) # rest) db =
     (case update_access_codes c' t u db of
        Inl e \<Rightarrow> runs_on c rest db
      | Inr db' \<Rightarrow> length (filter (\<lambda>r. ac_code r = c) (trigger_runs c' t u db)) + runs_on c rest db')"


subsection \<open>The athlete page\<close>








subsection \<open>The coach page\<close>



subsection \<open>Profile bootstrap: the trigger on new accounts\<close>

























subsection \<open>The sign-up page\<close>





subsection \<open>Redemption attempts in sequence\<close>






subsection \<open>Example data\<close>

text \<open>The code \<^verbatim>\<open>AB-123-CD\<close> of the specification's scenario: an athlete code for women's
  soccer in the organization \<^verbatim>\<open>O1\<close>, created by an administrator for the coach
  \<^verbatim>\<open>coach1\<close>, not used yet.\<close>

definition team_code :: access_code where
  "team_code =
     \<lparr>ac_code = ''AB-123-CD'', ac_organization_id = Some ''O1'', ac_role = Athlete,
      ac_sport_id = Some ''Soccer'', ac_gender = Some Female, ac_created_by = Some ''admin1'',
      ac_coach_id = Some ''coach1'', ac_used_at = None, ac_used_by = None\<rparr>"


text \<open>A coach code of the same organization that was used at time 5.\<close>

definition staff_code :: access_code where
  "staff_code =
     \<lparr>ac_code = ''CO-456-EF'', ac_organization_id = Some ''O1'', ac_role = Coach,
      ac_sport_id = Some ''Soccer'', ac_gender = Some Female, ac_created_by = Some ''admin1'',
      ac_coach_id = None, ac_used_at = Some 5, ac_used_by = Some ''coach1''\<rparr>"

definition issued_db :: database where
  "issued_db = \<lparr>access_codes = [team_code, staff_code], profiles = [], user_sports = [],
                coach_athletes = []\<rparr>"













section \<open>Properties\<close>

subsection \<open>The update of a code and its trigger\<close>

lemma do_nothing_tables:
  "insert_coach_athletes_do_nothing c a s g db = Inr db' \<Longrightarrow>
     access_codes db' = access_codes db \<and> profiles db' = profiles db \<and> user_sports db' = user_sports db"
  by (auto simp: insert_coach_athletes_do_nothing_def split: option.splits if_splits)

lemma handle_athlete_access_code_tables:
  "handle_athlete_access_code NEW db = Inr db' \<Longrightarrow>
     access_codes db' = access_codes db \<and> profiles db' = profiles db \<and> user_sports db' = user_sports db"
  by (auto simp: handle_athlete_access_code_def dest: do_nothing_tables split: if_splits)

lemma fire_triggers_tables:
  "fire_triggers ps db = Inr db' \<Longrightarrow>
     access_codes db' = access_codes db \<and> profiles db' = profiles db \<and> user_sports db' = user_sports db"
proof (induction ps db rule: fire_triggers.induct)
  case (1 db)
  then show ?case by simp
next
  case (2 OLD NEW rest db)
  show ?case
  proof (cases "on_access_code_used OLD NEW")
    case True
    with "2.prems" obtain d where h: "handle_athlete_access_code NEW db = Inr d"
      and f: "fire_triggers rest d = Inr db'"
      by (auto split: sum.splits)
    from "2.IH"(1)[OF True h f] handle_athlete_access_code_tables[OF h] show ?thesis by simp
  next
    case False
    with "2.prems" have "fire_triggers rest db = Inr db'" by simp
    from "2.IH"(2)[OF False this] show ?thesis .
  qed
qed

lemma fire_triggers_none:
  "\<forall>p \<in> set ps. \<not> on_access_code_used (fst p) (snd p) \<Longrightarrow> fire_triggers ps db = Inr db"
  by (induction ps db rule: fire_triggers.induct) auto

lemma update_access_codes_tables:
  assumes "update_access_codes c t u db = Inr db'"
  shows "access_codes db' = map (\<lambda>r. if ac_code r = c then set_used t u r else r) (access_codes db)"
    and "profiles db' = profiles db" and "user_sports db' = user_sports db"
  using fire_triggers_tables[OF assms[unfolded update_access_codes_def]] by simp_all

lemma update_consumed:
  assumes "\<forall>r \<in> set (access_codes db). ac_code r = c \<longrightarrow> ac_used_by r \<noteq> None"
  shows "update_access_codes c t u db =
     Inr (db\<lparr>access_codes := map (\<lambda>r. if ac_code r = c then set_used t u r else r) (access_codes db)\<rparr>)"
  unfolding update_access_codes_def
  by (rule fire_triggers_none) (use assms in \<open>auto simp: updated_rows_def on_access_code_used_def\<close>)

lemma trigger_runs_eq:
  "trigger_runs c t u db =
     map (set_used t u) (filter (\<lambda>r. ac_code r = c \<and> ac_used_by r = None) (access_codes db))"
  by (induction "access_codes db" arbitrary: db)
     (auto simp: trigger_runs_def updated_rows_def on_access_code_used_def set_used_def filter_map o_def)


lemma count_runs_step:
  "length (filter (\<lambda>r. ac_code r = c) (map (set_used t u) (filter (\<lambda>r. ac_code r = c' \<and> ac_used_by r = None) rows)))
   + length (filter (\<lambda>r. ac_code r = c \<and> ac_used_by r = None)
               (map (\<lambda>r. if ac_code r = c' then set_used t u r else r) rows))
   = length (filter (\<lambda>r. ac_code r = c \<and> ac_used_by r = None) rows)"
  by (induction rows) (auto simp: set_used_def)

lemma runs_on_bound:
  "runs_on c reqs db \<le> length (filter (\<lambda>r. ac_code r = c \<and> ac_used_by r = None) (access_codes db))"
proof (induction reqs arbitrary: db)
  case Nil
  then show ?case by simp
next
  case (Cons q reqs)
  obtain c' t u where q: "q = (c', t, u)" by (cases q) auto
  show ?case
  proof (cases "update_access_codes c' t u db")
    case (Inl e)
    with Cons.IH[of db] q show ?thesis by simp
  next
    case (Inr db')
    have "runs_on c (q # reqs) db =
        length (filter (\<lambda>r. ac_code r = c) (trigger_runs c' t u db)) + runs_on c reqs db'"
      using q Inr by simp
    also have "\<dots> \<le> length (filter (\<lambda>r. ac_code r = c) (trigger_runs c' t u db))
        + length (filter (\<lambda>r. ac_code r = c \<and> ac_used_by r = None) (access_codes db'))"
      using Cons.IH[of db'] by simp
    also have "\<dots> = length (filter (\<lambda>r. ac_code r = c \<and> ac_used_by r = None) (access_codes db))"
      unfolding trigger_runs_eq update_access_codes_tables(1)[OF Inr] by (rule count_runs_step)
    finally show ?thesis .
  qed
qed

lemma unique_code_count:
  "distinct (map ac_code rows) \<Longrightarrow> length (filter (\<lambda>r. ac_code r = c \<and> P r) rows) \<le> 1"
  by (induction rows) (auto simp: filter_empty_conv image_iff)

lemma consumed_after:
  "list_all (\<lambda>r. ac_code r = c \<longrightarrow> ac_used_by r \<noteq> None)
     (map (\<lambda>r. if ac_code r = c then set_used t u r else r) rows)"
  by (induction rows) (simp_all add: set_used_def)

text \<open>
  Claim C10. The trigger function runs, in a statement that updates the rows with the code
  text \<open>c\<close>, exactly for those of them whose \<^verbatim>\<open>used_by\<close> was null (the new value is never
  null). With code texts unique, over any series of such statements the function runs at
  most once for a given code, counting the statements that went through (one that raises
  is undone as a whole). A statement on a code whose \<^verbatim>\<open>used_by\<close> is set goes through, adds
  no row to \<^verbatim>\<open>coach_athletes\<close>, and leaves \<^verbatim>\<open>used_by\<close> set.
\<close>

theorem materialization_at_most_once:
  "trigger_runs c t u db =
     map (set_used t u) (filter (\<lambda>r. ac_code r = c \<and> ac_used_by r = None) (access_codes db)) \<and>
   (distinct (map ac_code (access_codes db)) \<longrightarrow> runs_on c reqs db \<le> 1) \<and>
   (list_all (\<lambda>r. ac_code r = c \<longrightarrow> ac_used_by r \<noteq> None) (access_codes db) \<longrightarrow>
      (\<exists>db'. update_access_codes c t u db = Inr db' \<and>
             coach_athletes db' = coach_athletes db \<and>
             list_all (\<lambda>r. ac_code r = c \<longrightarrow> ac_used_by r \<noteq> None) (access_codes db')))"
proof (intro conjI impI)
  show "trigger_runs c t u db =
     map (set_used t u) (filter (\<lambda>r. ac_code r = c \<and> ac_used_by r = None) (access_codes db))"
    by (rule trigger_runs_eq)
next
  assume "distinct (map ac_code (access_codes db))"
  from unique_code_count[OF this] runs_on_bound[of c reqs db]
  show "runs_on c reqs db \<le> 1" by (rule order_trans[rotated])
next
  assume a: "list_all (\<lambda>r. ac_code r = c \<longrightarrow> ac_used_by r \<noteq> None) (access_codes db)"
  then have "\<forall>r \<in> set (access_codes db). ac_code r = c \<longrightarrow> ac_used_by r \<noteq> None"
    by (simp add: list_all_iff)
  then have u: "update_access_codes c t u db =
      Inr (db\<lparr>access_codes := map (\<lambda>r. if ac_code r = c then set_used t u r else r) (access_codes db)\<rparr>)"
    by (rule update_consumed)
  have "list_all (\<lambda>r. ac_code r = c \<longrightarrow> ac_used_by r \<noteq> None)
          (map (\<lambda>r. if ac_code r = c then set_used t u r else r) (access_codes db))"
    by (rule consumed_after)
  with u show "\<exists>db'. update_access_codes c t u db = Inr db' \<and>
             coach_athletes db' = coach_athletes db \<and>
             list_all (\<lambda>r. ac_code r = c \<longrightarrow> ac_used_by r \<noteq> None) (access_codes db')"
    by simp
qed


theorem materialization_at_most_once_witness:
  "distinct (map ac_code (access_codes issued_db)) \<and>
   runs_on ''AB-123-CD'' [(''AB-123-CD'', 10, ''A''), (''AB-123-CD'', 20, ''B'')] issued_db \<le> 1 \<and>
   list_all (\<lambda>r. ac_code r = ''CO-456-EF'' \<longrightarrow> ac_used_by r \<noteq> None) (access_codes issued_db) \<and>
   (\<exists>db'. update_access_codes ''CO-456-EF'' 20 ''B'' issued_db = Inr db' \<and>
          coach_athletes db' = coach_athletes issued_db \<and>
          list_all (\<lambda>r. ac_code r = ''CO-456-EF'' \<longrightarrow> ac_used_by r \<noteq> None) (access_codes db'))"
proof -
  have d: "distinct (map ac_code (access_codes issued_db))"
    by (simp add: issued_db_def team_code_def staff_code_def)
  have u: "list_all (\<lambda>r. ac_code r = ''CO-456-EF'' \<longrightarrow> ac_used_by r \<noteq> None) (access_codes issued_db)"
    by (simp add: issued_db_def team_code_def staff_code_def)
  from materialization_at_most_once
         [of "''AB-123-CD''" 10 "''A''" issued_db "[(''AB-123-CD'', 10, ''A''), (''AB-123-CD'', 20, ''B'')]"] d
  have r: "runs_on ''AB-123-CD'' [(''AB-123-CD'', 10, ''A''), (''AB-123-CD'', 20, ''B'')] issued_db \<le> 1"
    by blast
  from materialization_at_most_once [of "''CO-456-EF''" 20 "''B''" issued_db "[]"] u
  have "\<exists>db'. update_access_codes ''CO-456-EF'' 20 ''B'' issued_db = Inr db' \<and>
          coach_athletes db' = coach_athletes issued_db \<and>
          list_all (\<lambda>r. ac_code r = ''CO-456-EF'' \<longrightarrow> ac_used_by r \<noteq> None) (access_codes db')"
    by blast
  with d u r show ?thesis by blast
qed

subsection \<open>The athlete page's update\<close>








subsection \<open>The consumption time over a series of attempts\<close>


















subsection \<open>Validation\<close>








subsection \<open>A successful redemption\<close>









subsection \<open>A code of another role\<close>




subsection \<open>Duplicate relationship rows\<close>

text \<open>The trigger's insert is idempotent; the athlete page's insert of the same key
  reports the duplicate as an error.\<close>

lemma do_nothing_twice:
  "insert_coach_athletes_do_nothing c a s g db = Inr db' \<Longrightarrow>
   insert_coach_athletes_do_nothing c a s g db' = Inr db'"
  by (auto simp: insert_coach_athletes_do_nothing_def same_link_def split: option.splits if_splits)

lemma plain_insert_twice:
  "insert_coach_athletes c a s g x db = Inr db' \<Longrightarrow>
   insert_coach_athletes c a s g x db' = Inl UniqueViolation"
  by (auto simp: insert_coach_athletes_def same_link_def split: option.splits if_splits)


subsection \<open>Profile bootstrap\<close>























end
